theory Spec2Isabelle
  imports Complex_Main
begin

section \<open>Brent's one-dimensional minimiser (\<open>pyGPs/Core/tools.py\<close>, \<open>brentmin\<close>)\<close>

text \<open>
  The routine works on Python floats. In the model of the whole routine they are
  \<^typ>\<open>real\<close> numbers with exact arithmetic: no rounding, no overflow, no NaN. That
  model decides everything that rests on the control flow and on comparisons. Two lines
  of the source behave differently in double precision in a way that matters below: the
  midpoint \<open>0.5*(a+b)\<close> (lines 130 and 190) overflows when \<open>a+b\<close> does, and the sum
  \<open>xf + si*max(abs(d),tol1)\<close> (line 170) is rounded. Both are modelled a second time,
  with the rounding and the overflow of IEEE 754 binary64, in the subsection on double
  precision. The three numeric constants are the values
  the program holds in double precision: \<open>sys.float_info.epsilon\<close> is \<open>2^-52\<close>, its
  square root is \<open>2^-26\<close> (exact), and \<open>0.5*(3.0 - sqrt(5.0))\<close> evaluates to the double
  \<open>0x1.8722191a02d6p-2 = 215027748241771 / 2^49\<close>. The evaluation counter and
  \<open>Nitmax\<close> are Python integers, modelled as \<^typ>\<open>int\<close>.

  The objective \<open>f\<close> is called as \<open>f(x, *args)\<close> and returns a sequence whose first
  element holds the value (read as \<open>vargout[0][0]\<close>) and whose remaining elements
  (\<open>vargout[1:]\<close>) are auxiliary outputs. It is modelled as a function from the abscissa
  and the extra arguments to a pair of the value and the list of auxiliary outputs.
\<close>

subsection \<open>Constants\<close>

definition eps :: real where
  "eps = 1 / 2 ^ 52"

definition seps :: real where
  "seps = 1 / 2 ^ 26"

definition c :: real where
  "c = 215027748241771 / 2 ^ 49"

subsection \<open>The sign helper\<close>

text \<open>
  Python 2's builtin \<open>cmp(x, y)\<close>: \<open>-1\<close>, \<open>0\<close> or \<open>1\<close> as \<open>x\<close> is below, equal to or
  above \<open>y\<close>.
\<close>

definition cmp_py :: "real \<Rightarrow> real \<Rightarrow> int" where
  "cmp_py x y = (if x < y then - 1 else if x = y then 0 else 1)"

text \<open>
  The two-line idiom \<open>si = cmp(t,0); if (t == 0): si += 1\<close>, which the source writes
  out at lines 155-156 (for \<open>xm-xf\<close>) and at lines 168-169 (for \<open>d\<close>).
\<close>

definition sign_si :: "real \<Rightarrow> int" where
  "sign_si t = (let si = cmp_py t 0 in if t = 0 then si + 1 else si)"

subsection \<open>The local variables of the search\<close>

text \<open>
  Each field is named after the local variable of the source it holds, with the suffix
  \<open>_of\<close>: \<open>a_of\<close> holds \<open>a\<close>, \<open>xf_of\<close> holds \<open>xf\<close>, and so on. \<open>fu\<close> and
  \<open>gs\<close> live inside one iteration only and are not part of the record.
\<close>

record 'o brent_state =
  a_of :: real
  b_of :: real
  v_of :: real
  w_of :: real
  xf_of :: real
  d_of :: real
  e_of :: real
  x_of :: real
  fv_of :: real
  fw_of :: real
  fx_of :: real
  xm_of :: real
  tol1_of :: real
  tol2_of :: real
  funccount_of :: int
  varargout_of :: "'o list"

text \<open>Lines 113-132: the start point, its evaluation and the first tolerances.\<close>

definition start ::
  "real \<Rightarrow> real \<Rightarrow> real \<Rightarrow> (real \<times> 'o list) \<Rightarrow> 'o brent_state" where
  "start xlow xupp tol vargout =
    (let funccount = 2;
         a = xlow;
         b = xupp;
         v = a + c * (b - a);
         w = v;
         xf = v;
         d = 0;
         e = 0;
         x = xf;
         fx = fst vargout;
         varargout = snd vargout;
         funccount = funccount + 1;
         fv = fx;
         fw = fx;
         xm = 0.5 * (a + b);
         tol1 = seps * \<bar>xf\<bar> + tol / 3;
         tol2 = 2 * tol1
     in \<lparr>a_of = a, b_of = b, v_of = v, w_of = w, xf_of = xf, d_of = d, e_of = e,
         x_of = x, fv_of = fv, fw_of = fw, fx_of = fx, xm_of = xm, tol1_of = tol1,
         tol2_of = tol2, funccount_of = funccount, varargout_of = varargout\<rparr>)"

text \<open>The abscissa of the third evaluation (lines 117-124, \<open>x = xf = v\<close>).\<close>

definition start_point :: "real \<Rightarrow> real \<Rightarrow> real" where
  "start_point xlow xupp = xlow + c * (xupp - xlow)"

text \<open>Line 134: the loop condition.\<close>

definition loop_cond :: "'o brent_state \<Rightarrow> bool" where
  "loop_cond s \<longleftrightarrow> \<bar>xf_of s - xm_of s\<bar> > tol2_of s - 0.5 * (b_of s - a_of s)"

text \<open>
  Lines 153-157: a parabolic step that would land within \<open>tol2\<close> of an end of the
  bracket is replaced by a step of length \<open>tol1\<close> towards the midpoint.
\<close>

definition near_endpoint_adjust :: "'o brent_state \<Rightarrow> 'o brent_state" where
  "near_endpoint_adjust s =
    (if x_of s - a_of s < tol2_of s \<or> b_of s - x_of s < tol2_of s then
       let si = sign_si (xm_of s - xf_of s)
       in s\<lparr>d_of := tol1_of s * of_int si\<rparr>
     else s)"

text \<open>
  Lines 135-166: choose the step \<open>d\<close> (and \<open>e\<close>), by parabolic interpolation when
  \<open>\<bar>e\<bar> > tol1\<close> and the parabola is acceptable, by a golden-section step otherwise.
  The result is the updated state together with the flag \<open>gs\<close>.
\<close>

definition parabolic :: "'o brent_state \<Rightarrow> bool \<times> 'o brent_state" where
  "parabolic s =
    (if \<bar>e_of s\<bar> > tol1_of s then
       let r = (xf_of s - w_of s) * (fx_of s - fv_of s);
           q = (xf_of s - v_of s) * (fx_of s - fw_of s);
           p = (xf_of s - v_of s) * q - (xf_of s - w_of s) * r;
           q = 2 * (q - r);
           p = (if q > 0 then - p else p);
           q = \<bar>q\<bar>;
           r = e_of s;
           s = s\<lparr>e_of := d_of s\<rparr>
       in if \<bar>p\<bar> < \<bar>0.5 * q * r\<bar> \<and> p > q * (a_of s - xf_of s) \<and> p < q * (b_of s - xf_of s)
          then
            let s = s\<lparr>d_of := p / q\<rparr>;
                s = s\<lparr>x_of := xf_of s + d_of s\<rparr>
            in (False, near_endpoint_adjust s)
          else (True, s)
     else (True, s))"

text \<open>Lines 161-166: the golden-section step into the larger part of the bracket.\<close>

definition golden :: "'o brent_state \<Rightarrow> 'o brent_state" where
  "golden s =
    (let s = (if xf_of s \<ge> xm_of s then s\<lparr>e_of := a_of s - xf_of s\<rparr>
              else s\<lparr>e_of := b_of s - xf_of s\<rparr>)
     in s\<lparr>d_of := c * e_of s\<rparr>)"

definition choose_step :: "'o brent_state \<Rightarrow> 'o brent_state" where
  "choose_step s = (case parabolic s of (gs, s) \<Rightarrow> if gs then golden s else s)"

text \<open>Lines 167-170: the candidate abscissa, at least \<open>tol1\<close> away from \<open>xf\<close>.\<close>

definition candidate :: "'o brent_state \<Rightarrow> 'o brent_state" where
  "candidate s =
    (let si = sign_si (d_of s)
     in s\<lparr>x_of := xf_of s + of_int si * max \<bar>d_of s\<bar> (tol1_of s)\<rparr>)"

text \<open>
  Lines 171-191: take the result \<open>vargout\<close> of evaluating \<open>f\<close> at \<open>x\<close>, count it,
  and update the bracket, the three tracked points, the midpoint and the tolerances.
\<close>

definition update :: "real \<Rightarrow> (real \<times> 'o list) \<Rightarrow> 'o brent_state \<Rightarrow> 'o brent_state" where
  "update tol vargout s =
    (let fu = fst vargout;
         s = s\<lparr>varargout_of := snd vargout\<rparr>;
         s = s\<lparr>funccount_of := funccount_of s + 1\<rparr>;
         s = (if fu \<le> fx_of s then
                let s = (if x_of s \<ge> xf_of s then s\<lparr>a_of := xf_of s\<rparr>
                         else s\<lparr>b_of := xf_of s\<rparr>);
                    s = s\<lparr>v_of := w_of s\<rparr>; s = s\<lparr>fv_of := fw_of s\<rparr>;
                    s = s\<lparr>w_of := xf_of s\<rparr>; s = s\<lparr>fw_of := fx_of s\<rparr>;
                    s = s\<lparr>xf_of := x_of s\<rparr>; s = s\<lparr>fx_of := fu\<rparr>
                in s
              else
                let s = (if x_of s < xf_of s then s\<lparr>a_of := x_of s\<rparr>
                         else s\<lparr>b_of := x_of s\<rparr>)
                in if fu \<le> fw_of s \<or> w_of s = xf_of s then
                     let s = s\<lparr>v_of := w_of s\<rparr>; s = s\<lparr>fv_of := fw_of s\<rparr>;
                         s = s\<lparr>w_of := x_of s\<rparr>; s = s\<lparr>fw_of := fu\<rparr>
                     in s
                   else if fu \<le> fv_of s \<or> (v_of s = xf_of s \<or> v_of s = w_of s) then
                     let s = s\<lparr>v_of := x_of s\<rparr>; s = s\<lparr>fv_of := fu\<rparr>
                     in s
                   else s);
         s = s\<lparr>xm_of := 0.5 * (a_of s + b_of s)\<rparr>;
         s = s\<lparr>tol1_of := seps * \<bar>xf_of s\<bar> + tol / 3\<rparr>;
         s = s\<lparr>tol2_of := 2 * tol1_of s\<rparr>
     in s)"

text \<open>One pass through the loop body: lines 135-191.\<close>

definition body ::
  "real \<Rightarrow> (real \<Rightarrow> 'g \<Rightarrow> real \<times> 'o list) \<Rightarrow> 'g \<Rightarrow> 'o brent_state \<Rightarrow> 'o brent_state" where
  "body tol f args s =
    (let s = candidate (choose_step s)
     in update tol (f (x_of s) args) s)"

lemma funccount_update: "funccount_of (update tol vargout s) = funccount_of s + 1"
  by (simp add: update_def Let_def)

lemma funccount_candidate: "funccount_of (candidate s) = funccount_of s"
  by (simp add: candidate_def Let_def)

lemma funccount_golden: "funccount_of (golden s) = funccount_of s"
  by (simp add: golden_def Let_def)

lemma funccount_parabolic: "funccount_of (snd (parabolic s)) = funccount_of s"
  by (simp add: parabolic_def near_endpoint_adjust_def Let_def)

lemma funccount_choose_step: "funccount_of (choose_step s) = funccount_of s"
  using funccount_parabolic [of s]
  by (cases "parabolic s") (simp add: choose_step_def funccount_golden)

lemma funccount_body: "funccount_of (body tol f args s) = funccount_of s + 1"
  by (simp add: body_def Let_def funccount_update funccount_candidate funccount_choose_step)

text \<open>
  Lines 134-195: the main loop. It is left when the condition of line 134 fails, or by
  the \<open>break\<close> of line 195 once \<open>funccount >= Nitmax\<close> at the bottom of an iteration.
\<close>

function main_loop ::
  "int \<Rightarrow> real \<Rightarrow> (real \<Rightarrow> 'g \<Rightarrow> real \<times> 'o list) \<Rightarrow> 'g \<Rightarrow> 'o brent_state \<Rightarrow> 'o brent_state"
  where
  "main_loop Nitmax tol f args s =
    (if loop_cond s then
       let s = body tol f args s
       in if funccount_of s \<ge> Nitmax then s else main_loop Nitmax tol f args s
     else s)"
  by pat_completeness auto
termination
  by (relation "measure (\<lambda>(Nitmax, tol, f, args, s). nat (Nitmax - funccount_of s))")
    (auto simp: funccount_body)

text \<open>Lines 196-200: prefer an endpoint whose value is below the interior result.\<close>

definition endpoint_check ::
  "real \<Rightarrow> real \<Rightarrow> real \<Rightarrow> real \<Rightarrow> 'o brent_state \<Rightarrow> 'o brent_state" where
  "endpoint_check xlow xupp fa fb s =
    (if fa < fx_of s \<and> fa \<le> fb then
       let s = s\<lparr>xf_of := xlow\<rparr> in s\<lparr>fx_of := fa\<rparr>
     else if fb < fx_of s then
       let s = s\<lparr>xf_of := xupp\<rparr> in s\<lparr>fx_of := fb\<rparr>
     else s)"

text \<open>
  The returned Python list mixes floats, an integer and the opaque auxiliary outputs.
\<close>

datatype 'o pyval = PyFloat real | PyInt int | PyAux 'o

text \<open>
  The state when the main loop is left, for the tolerance already floored
  (lines 110-195).
\<close>

definition search ::
  "real \<Rightarrow> real \<Rightarrow> int \<Rightarrow> real \<Rightarrow> (real \<Rightarrow> 'g \<Rightarrow> real \<times> 'o list) \<Rightarrow> 'g \<Rightarrow> 'o brent_state"
  where
  "search xlow xupp Nitmax tol f args =
     main_loop Nitmax tol f args
       (start xlow xupp tol (f (start_point xlow xupp) args))"

text \<open>
  \<open>brentmin(xlow,xupp,Nitmax,tol,f,nout=None,*args)\<close>, lines 105-206. \<open>nout\<close> is
  defaulted and never read again.
\<close>

definition brentmin ::
  "real \<Rightarrow> real \<Rightarrow> int \<Rightarrow> real \<Rightarrow> (real \<Rightarrow> 'g \<Rightarrow> real \<times> 'o list) \<Rightarrow> int option \<Rightarrow> 'g
     \<Rightarrow> 'o pyval list" where
  "brentmin xlow xupp Nitmax tol f nout args =
    (let nout = (case nout of None \<Rightarrow> 0 | Some n \<Rightarrow> n);
         tol = max tol eps;
         fa = fst (f xlow args);
         fb = fst (f xupp args);
         s = search xlow xupp Nitmax tol f args;
         s = endpoint_check xlow xupp fa fb s;
         fmin = fx_of s;
         xmin = xf_of s;
         vargout = [PyFloat xmin, PyFloat fmin, PyInt (funccount_of s)]
     in foldl (\<lambda>vargout vv. vargout @ [PyAux vv]) vargout (varargout_of s))"

text \<open>
  The states of the search in order: the state before the first test of the loop
  condition, then the state at the bottom of each iteration.
\<close>

function loop_states ::
  "int \<Rightarrow> real \<Rightarrow> (real \<Rightarrow> 'g \<Rightarrow> real \<times> 'o list) \<Rightarrow> 'g \<Rightarrow> 'o brent_state
     \<Rightarrow> 'o brent_state list" where
  "loop_states Nitmax tol f args s =
    s # (if loop_cond s then
           let s = body tol f args s
           in if funccount_of s \<ge> Nitmax then [s] else loop_states Nitmax tol f args s
         else [])"
  by pat_completeness auto
termination
  by (relation "measure (\<lambda>(Nitmax, tol, f, args, s). nat (Nitmax - funccount_of s))")
    (auto simp: funccount_body)

subsection \<open>Objectives used as concrete inputs\<close>

text \<open>
  \<open>f(x) = ((x-2)**2, x)\<close>: a parabola with its minimum at \<open>2\<close>, whose single
  auxiliary output is the abscissa it was evaluated at.
\<close>

definition parabola_tagged :: "real \<Rightarrow> unit \<Rightarrow> real \<times> real list" where
  "parabola_tagged x args = ((x - 2) ^ 2, [x])"

text \<open>\<open>f(x) = (x, x)\<close>: increasing, so that the minimum over a bracket is at \<open>xlow\<close>.\<close>

definition rising_tagged :: "real \<Rightarrow> unit \<Rightarrow> real \<times> real list" where
  "rising_tagged x args = (x, [x])"

text \<open>\<open>f(x) = (-x, x)\<close>: decreasing, so that the minimum over a bracket is at \<open>xupp\<close>.\<close>

definition falling_tagged :: "real \<Rightarrow> unit \<Rightarrow> real \<times> real list" where
  "falling_tagged x args = (- x, [x])"

subsection \<open>The routine with an effectful objective\<close>

text \<open>
  The same routine with the objective's effects made explicit: \<open>f\<close> receives the
  state of everything outside the routine (\<open>world\<close>) and returns it, possibly
  changed, along with its outputs. The routine itself reads and writes nothing of it; it
  hands it from one call of \<open>f\<close> to the next, in the order of the calls (lines 111,
  112, 125 and 171).
\<close>

function main_loop_io ::
  "int \<Rightarrow> real \<Rightarrow> (real \<Rightarrow> 'g \<Rightarrow> 'w \<Rightarrow> (real \<times> 'o list) \<times> 'w) \<Rightarrow> 'g \<Rightarrow> 'o brent_state \<Rightarrow> 'w
     \<Rightarrow> 'o brent_state \<times> 'w" where
  "main_loop_io Nitmax tol f args s world =
    (if loop_cond s then
       let s = candidate (choose_step s);
           (vargout, world) = f (x_of s) args world;
           s = update tol vargout s
       in if funccount_of s \<ge> Nitmax then (s, world)
          else main_loop_io Nitmax tol f args s world
     else (s, world))"
  by pat_completeness auto
termination
  by (relation "measure (\<lambda>(Nitmax, tol, f, args, s, world). nat (Nitmax - funccount_of s))")
    (auto simp: funccount_update funccount_candidate funccount_choose_step)

definition brentmin_io ::
  "real \<Rightarrow> real \<Rightarrow> int \<Rightarrow> real \<Rightarrow> (real \<Rightarrow> 'g \<Rightarrow> 'w \<Rightarrow> (real \<times> 'o list) \<times> 'w) \<Rightarrow> int option
     \<Rightarrow> 'g \<Rightarrow> 'w \<Rightarrow> 'o pyval list \<times> 'w" where
  "brentmin_io xlow xupp Nitmax tol f nout args world =
    (let nout = (case nout of None \<Rightarrow> 0 | Some n \<Rightarrow> n);
         tol = max tol eps;
         (vargout, world) = f xlow args world;
         fa = fst vargout;
         (vargout, world) = f xupp args world;
         fb = fst vargout;
         (vargout, world) = f (start_point xlow xupp) args world;
         s = start xlow xupp tol vargout;
         (s, world) = main_loop_io Nitmax tol f args s world;
         s = endpoint_check xlow xupp fa fb s;
         fmin = fx_of s;
         xmin = xf_of s;
         vargout = [PyFloat xmin, PyFloat fmin, PyInt (funccount_of s)]
     in (foldl (\<lambda>vargout vv. vargout @ [PyAux vv]) vargout (varargout_of s), world))"

text \<open>
  An objective with an effect that its outputs do not depend on: it counts its calls in
  the world.
\<close>

definition counting_parabola :: "real \<Rightarrow> unit \<Rightarrow> nat \<Rightarrow> (real \<times> real list) \<times> nat" where
  "counting_parabola x args world = (((x - 2) ^ 2, [x]), world + 1)"

subsection \<open>Double precision\<close>

text \<open>
  A Python float is an IEEE 754 binary64 number: 53 significant bits, exponents from
  -1022 to 1023 (below that the spacing stays \<open>2^-1074\<close>), every result rounded to the
  nearest double, a tie to the one with an even last bit, and a result of magnitude
  \<open>2^1024\<close> or more replaced by an infinity.
\<close>

text \<open>The nearest integer, a tie going to the even one.\<close>

definition round_even :: "real \<Rightarrow> int" where
  "round_even y =
    (let n = \<lfloor>y\<rfloor>; r = y - of_int n
     in if r < 1 / 2 then n else if r > 1 / 2 then n + 1 else if even n then n else n + 1)"

text \<open>The exponent of the binade of \<open>y\<close>, and the spacing of the doubles there.\<close>

definition exponent_double :: "real \<Rightarrow> int" where
  "exponent_double y = (if \<bar>y\<bar> < 1 / 2 ^ 1022 then - 1022 else \<lfloor>log 2 \<bar>y\<bar>\<rfloor>)"

definition ulp_double :: "real \<Rightarrow> real" where
  "ulp_double y = 2 powr of_int (exponent_double y - 52)"

text \<open>
  The double a real result is rounded to; \<open>None\<close> when the result overflows, that is,
  when the program holds an infinity.
\<close>

definition round_double :: "real \<Rightarrow> real option" where
  "round_double y =
    (let u = ulp_double y;
         v = u * of_int (round_even (y / u))
     in if \<bar>v\<bar> < 2 ^ 1024 then Some v else None)"

text \<open>
  Lines 168-170 on doubles \<open>xf\<close>, \<open>d\<close> and \<open>tol1\<close>: \<open>abs\<close>, \<open>max\<close> and the
  product with the integer \<open>si\<close> (1 or -1) are exact, the sum is rounded.
\<close>

definition sample_point_double :: "real \<Rightarrow> real \<Rightarrow> real \<Rightarrow> real option" where
  "sample_point_double xf d tol1 =
    (let si = sign_si d
     in round_double (xf + of_int si * max \<bar>d\<bar> tol1))"

text \<open>
  Lines 130 and 190 on doubles \<open>a\<close> and \<open>b\<close>: \<open>0.5*(a+b)\<close>, the sum first. Once the
  sum is an infinity so is the midpoint.
\<close>

definition midpoint_double :: "real \<Rightarrow> real \<Rightarrow> real option" where
  "midpoint_double a b =
    (case round_double (a + b) of None \<Rightarrow> None | Some s \<Rightarrow> round_double (0.5 * s))"

subsection \<open>Predicates on states\<close>

text \<open>
  What holds of the variables each time the loop condition is tested: the best point
  lies in the bracket, and \<open>xm\<close>, \<open>tol1\<close>, \<open>tol2\<close> are the midpoint and the
  tolerances of the current \<open>a\<close>, \<open>b\<close> and \<open>xf\<close>.
\<close>

definition bracket_inv :: "real \<Rightarrow> 'o brent_state \<Rightarrow> bool" where
  "bracket_inv tol s \<longleftrightarrow>
     a_of s \<le> xf_of s \<and> xf_of s \<le> b_of s \<and>
     xm_of s = 0.5 * (a_of s + b_of s) \<and>
     tol1_of s = seps * \<bar>xf_of s\<bar> + tol / 3 \<and>
     tol2_of s = 2 * tol1_of s"

text \<open>Two states that agree on the bracket, the best point and the tolerances.\<close>

definition same_bracket :: "'o brent_state \<Rightarrow> 'o brent_state \<Rightarrow> bool" where
  "same_bracket s s' \<longleftrightarrow>
     a_of s' = a_of s \<and> b_of s' = b_of s \<and> xf_of s' = xf_of s \<and> xm_of s' = xm_of s \<and>
     tol1_of s' = tol1_of s \<and> tol2_of s' = tol2_of s"

section \<open>Properties\<close>

subsection \<open>The constants\<close>

lemma eps_pos: "0 < eps"
  by (simp add: eps_def)

lemma seps_pos: "0 < seps"
  by (simp add: seps_def)

lemma c_bounds: "0 < c \<and> c < 1"
  by (simp add: c_def)

text \<open>
  The double held in \<open>c\<close> is the golden-section constant \<open>(3 - sqrt 5) / 2\<close> up to
  the rounding of the square root.
\<close>

lemma c_is_golden_section:
  "\<bar>c - (3 - sqrt 5) / 2\<bar> < 1 / 2 ^ 53"
proof -
  define s where "s = (629397181890197 / 2 ^ 48 :: real)"
  define u where "u = (1 / 2 ^ 52 :: real)"
  have c: "c = (3 - s) / 2" by (simp add: c_def s_def)
  have "(s - u)\<^sup>2 < 5" by (simp add: s_def u_def power2_eq_square)
  moreover have "0 \<le> s - u" by (simp add: s_def u_def)
  ultimately have lo: "s - u < sqrt 5"
    using real_less_rsqrt by blast
  have "5 < (s + u)\<^sup>2" by (simp add: s_def u_def power2_eq_square)
  moreover have "0 \<le> s + u" by (simp add: s_def u_def)
  ultimately have hi: "sqrt 5 < s + u"
    using real_less_lsqrt by simp
  from lo hi have "\<bar>sqrt 5 - s\<bar> < u" by linarith
  then have "\<bar>(sqrt 5 - s) / 2\<bar> < u / 2" by simp
  also have "(sqrt 5 - s) / 2 = c - (3 - sqrt 5) / 2" by (simp add: c field_simps)
  also have "u / 2 = 1 / 2 ^ 53" by (simp add: u_def)
  finally show ?thesis .
qed

subsection \<open>The shape of the result\<close>

lemma foldl_append_aux:
  "foldl (\<lambda>vargout vv. vargout @ [PyAux vv]) acc vs = acc @ map PyAux vs"
  by (induction vs arbitrary: acc) simp_all

lemma brentmin_result:
  "brentmin xlow xupp Nitmax tol f nout args =
    (let s = endpoint_check xlow xupp (fst (f xlow args)) (fst (f xupp args))
               (search xlow xupp Nitmax (max tol eps) f args)
     in [PyFloat (xf_of s), PyFloat (fx_of s), PyInt (funccount_of s)]
          @ map PyAux (varargout_of s))"
  by (simp add: brentmin_def Let_def foldl_append_aux)

lemma endpoint_check_funccount [simp]:
  "funccount_of (endpoint_check xlow xupp fa fb s) = funccount_of s"
  by (simp add: endpoint_check_def Let_def)

lemma endpoint_check_varargout [simp]:
  "varargout_of (endpoint_check xlow xupp fa fb s) = varargout_of s"
  by (simp add: endpoint_check_def Let_def)

lemma start_funccount [simp]: "funccount_of (start xlow xupp tol vargout) = 3"
  by (simp add: start_def Let_def)

text \<open>The third evaluation is made at the abscissa the start state holds in \<open>x\<close>.\<close>

lemma start_x: "x_of (start xlow xupp tol vargout) = start_point xlow xupp"
  by (simp add: start_def start_point_def Let_def)

subsection \<open>Evaluating the model at a concrete input\<close>

text \<open>
  For evaluation the argument of a \<open>let\<close> (or of a pair pattern) is computed before
  its body is looked at, as the program does.
\<close>

lemma Let_arg_cong: "a = b \<Longrightarrow> Let a t = Let b t"
  by simp

lemma case_prod_arg_cong: "p = q \<Longrightarrow> case_prod g p = case_prod g q"
  by simp

lemmas brent_eval_defs = search_def start_def start_point_def
  loop_cond_def body_def update_def candidate_def choose_step_def parabolic_def golden_def
  near_endpoint_adjust_def sign_si_def cmp_py_def endpoint_check_def
  c_def seps_def eps_def Let_def power2_eq_square

subsection \<open>Counting the evaluations\<close>

lemma main_loop_funccount_ge:
  "funccount_of s \<le> funccount_of (main_loop Nitmax tol f args s)"
proof (induction Nitmax tol f args s rule: main_loop.induct)
  case (1 Nitmax tol f args s)
  show ?case
  proof (cases "loop_cond s")
    case False
    then show ?thesis by simp
  next
    case True
    note cond = this
    show ?thesis
    proof (cases "funccount_of (body tol f args s) \<ge> Nitmax")
      case True
      with cond show ?thesis by (simp add: Let_def funccount_body)
    next
      case False
      with cond 1 [OF cond refl] have
        "funccount_of (body tol f args s)
           \<le> funccount_of (main_loop Nitmax tol f args (body tol f args s))"
        by simp
      with cond False show ?thesis
        by (subst main_loop.simps) (simp add: Let_def funccount_body)
    qed
  qed
qed

lemma main_loop_funccount_le:
  "funccount_of (main_loop Nitmax tol f args s) \<le> max Nitmax (funccount_of s + 1)"
proof (induction Nitmax tol f args s rule: main_loop.induct)
  case (1 Nitmax tol f args s)
  show ?case
  proof (cases "loop_cond s")
    case False
    then show ?thesis by simp
  next
    case True
    note cond = this
    show ?thesis
    proof (cases "funccount_of (body tol f args s) \<ge> Nitmax")
      case True
      with cond show ?thesis by (simp add: Let_def funccount_body)
    next
      case False
      with cond 1 [OF cond refl] have
        "funccount_of (main_loop Nitmax tol f args (body tol f args s))
           \<le> max Nitmax (funccount_of (body tol f args s) + 1)"
        by simp
      moreover from False have "funccount_of (body tol f args s) + 1 \<le> Nitmax"
        by simp
      ultimately show ?thesis using cond False
        by (subst main_loop.simps) (simp add: Let_def)
    qed
  qed
qed

lemma search_funccount_bounds:
  "3 \<le> funccount_of (search xlow xupp Nitmax tol f args) \<and>
   funccount_of (search xlow xupp Nitmax tol f args) \<le> max Nitmax 4"
  using main_loop_funccount_ge [of "start xlow xupp tol (f (start_point xlow xupp) args)"
      Nitmax tol f args]
    main_loop_funccount_le [of Nitmax tol f args
      "start xlow xupp tol (f (start_point xlow xupp) args)"]
  by (simp add: search_def)

text \<open>
  C10. The evaluation count returned (the third element of the result) is at least 3,
  whatever \<open>Nitmax\<close> is: both endpoints and the start point are evaluated before the
  budget is looked at for the first time.
\<close>

theorem brentmin_at_least_three_evaluations:
  "\<exists>n. brentmin xlow xupp Nitmax tol f nout args ! 2 = PyInt n \<and> 3 \<le> n"
  using search_funccount_bounds [of xlow xupp Nitmax "max tol eps" f args]
  by (simp add: brentmin_result Let_def)

text \<open>
  C1 (the code breaks the documented budget). \<open>Nitmax\<close> is documented as the
  "maximum number of function evaluations made by the routine", but the budget is only
  tested at the bottom of an iteration (line 192). On \<open>[0, 5]\<close> with
  \<open>f(x) = (x-2)**2\<close>, tolerance \<open>1e-6\<close> and \<open>Nitmax = 3\<close> the three initial
  evaluations already use the budget up, the loop is entered all the same, and the
  returned count is 4.
\<close>

theorem budget_of_three_exceeded:
  "brentmin 0 5 3 (1/1000000) parabola_tagged None () ! 2 = PyInt 4"
  by (simp add: brentmin_result brent_eval_defs parabola_tagged_def
      cong: Let_arg_cong case_prod_arg_cong)

text \<open>
  What the code does guarantee: the count never exceeds the larger of \<open>Nitmax\<close> and 4,
  so the budget is kept whenever \<open>Nitmax\<close> is at least 4.
\<close>

lemma brentmin_count_upper_bound:
  "\<exists>n. brentmin xlow xupp Nitmax tol f nout args ! 2 = PyInt n \<and> n \<le> max Nitmax 4"
  using search_funccount_bounds [of xlow xupp Nitmax "max tol eps" f args]
  by (simp add: brentmin_result Let_def)

subsection \<open>The degenerate interval\<close>

lemma search_degenerate:
  assumes "0 < tol"
  shows "search xlow xlow Nitmax tol f args = start xlow xlow tol (f xlow args)"
proof -
  have "0 < seps * \<bar>xlow\<bar> + tol / 3"
    using assms seps_pos by (simp add: add_nonneg_pos)
  then have "\<not> loop_cond (start xlow xlow tol (f xlow args))"
    by (simp add: loop_cond_def start_def Let_def)
  then show ?thesis
    by (simp add: search_def start_point_def)
qed

text \<open>
  C3, as the code has it. With \<open>xlow = xupp\<close> of magnitude below \<open>2^1023\<close> the
  start point is that same point, the midpoint is it too, the loop condition fails at
  once (\<open>0 > tol2\<close> is false since the tolerance is floored to a positive number), and
  the result is the single point, its value, the auxiliary outputs of \<open>f\<close> there, and
  an evaluation count of exactly 3: the two endpoint evaluations and the evaluation of
  the start point. The bound keeps \<open>a+b\<close> below \<open>2^1024\<close>: from \<open>2^1023\<close> on the
  sum of line 130 overflows in double precision (\<open>midpoint_double_overflow_degenerate\<close>
  below), the program's midpoint is an infinity and its loop runs; nothing is said of
  those inputs here.
\<close>

theorem brentmin_degenerate_interval:
  assumes "\<bar>xlow\<bar> < 2 ^ 1023"
  shows "brentmin xlow xlow Nitmax tol f nout args =
     [PyFloat xlow, PyFloat (fst (f xlow args)), PyInt 3] @ map PyAux (snd (f xlow args))"
proof -
  have "0 < max tol eps" using eps_pos by simp
  then show ?thesis
    by (simp add: brentmin_result search_degenerate endpoint_check_def start_def Let_def)
qed

theorem brentmin_degenerate_interval_witness:
  "\<bar>3::real\<bar> < 2 ^ 1023 \<and>
   brentmin 3 3 100 (1/1000000) parabola_tagged None ()
     = [PyFloat 3, PyFloat 1, PyInt 3, PyAux 3]"
proof -
  have h: "\<bar>3::real\<bar> < 2 ^ 1023" by simp
  from h brentmin_degenerate_interval [OF h, of 100 "1/1000000" parabola_tagged None "()"]
  show ?thesis by (simp add: parabola_tagged_def)
qed

text \<open>
  C3 as stated fails: for \<open>xlow = xupp = 3\<close> the returned abscissa is 3 but the count
  is not 2.
\<close>

theorem brentmin_degenerate_count_counterexample:
  "\<not> (brentmin 3 3 100 (1/1000000) parabola_tagged None () ! 0 = PyFloat 3 \<and>
      brentmin 3 3 100 (1/1000000) parabola_tagged None () ! 2 = PyInt 2)"
proof -
  have "(0::real) < max (1/1000000) eps" by simp
  then show ?thesis
    by (simp add: brentmin_result search_degenerate endpoint_check_def start_def Let_def)
qed

subsection \<open>The tolerance floor\<close>

text \<open>
  C5. The tolerance is floored to machine epsilon before use (line 109): a call with a
  tolerance below \<open>eps\<close> returns what the call with tolerance \<open>eps\<close> returns.
\<close>

theorem tolerance_floor:
  "tol < eps \<Longrightarrow>
   brentmin xlow xupp Nitmax tol f nout args = brentmin xlow xupp Nitmax eps f nout args"
  by (simp add: brentmin_result max_def)

theorem tolerance_floor_witness:
  "(0::real) < eps \<and>
   brentmin 0 5 4 0 parabola_tagged None () = brentmin 0 5 4 eps parabola_tagged None ()"
  using tolerance_floor [of 0 0 5 4 parabola_tagged None "()"] by (simp add: eps_def)

subsection \<open>The sign helper and the direction of ties\<close>

text \<open>
  C8. The sign helper returns \<open>+1\<close> for a positive argument, \<open>-1\<close> for a negative
  one and \<open>+1\<close> (not 0) at zero. So a step \<open>d = 0\<close> moves the candidate to the right of
  \<open>xf\<close>, and when \<open>xm = xf\<close> the step that replaces a parabolic step too close to an
  end of the bracket is \<open>+tol1\<close>.
\<close>

theorem sign_si_ties_positive:
  "(0 < t \<longrightarrow> sign_si t = 1) \<and> (t < 0 \<longrightarrow> sign_si t = - 1) \<and> (t = 0 \<longrightarrow> sign_si t = 1) \<and>
   (d_of s = 0 \<longrightarrow> x_of (candidate s) = xf_of s + max 0 (tol1_of s)) \<and>
   (xm_of s = xf_of s \<and> (x_of s - a_of s < tol2_of s \<or> b_of s - x_of s < tol2_of s)
      \<longrightarrow> d_of (near_endpoint_adjust s) = tol1_of s)"
  by (simp add: sign_si_def cmp_py_def candidate_def near_endpoint_adjust_def Let_def)

theorem sign_si_ties_positive_witness:
  "(0::real) < 5 \<and> sign_si 5 = 1 \<and> (- 5::real) < 0 \<and> sign_si (- 5) = - 1 \<and> sign_si 0 = 1 \<and>
   d_of (start 1 1 eps (0, []::unit list)) = 0 \<and>
   x_of (candidate (start 1 1 eps (0, []::unit list))) = 1 + max 0 (seps + eps / 3) \<and>
   xm_of (start 1 1 eps (0, []::unit list)) = xf_of (start 1 1 eps (0, []::unit list)) \<and>
   x_of (start 1 1 eps (0, []::unit list)) - a_of (start 1 1 eps (0, []::unit list))
     < tol2_of (start 1 1 eps (0, []::unit list)) \<and>
   d_of (near_endpoint_adjust (start 1 1 eps (0, []::unit list))) = seps + eps / 3"
proof -
  let ?s = "start 1 1 eps (0, []::unit list)"
  have h: "d_of ?s = 0" "xm_of ?s = xf_of ?s" "x_of ?s - a_of ?s < tol2_of ?s"
    "xf_of ?s = 1" "tol1_of ?s = seps + eps / 3"
    by (simp_all add: start_def Let_def eps_def seps_def)
  from h sign_si_ties_positive [of 5 ?s] sign_si_ties_positive [of "- 5" ?s]
    sign_si_ties_positive [of 0 ?s]
  show ?thesis by simp
qed

subsection \<open>The auxiliary outputs\<close>

text \<open>
  C2 (the code breaks its documentation). The docstring promises "additional outputs of
  f at optimum", but \<open>varargout\<close> is overwritten at every evaluation (line 171),
  whether or not the new point becomes the best one, and the endpoint check of lines
  196-200 changes \<open>xf\<close> without touching it. On \<open>[0, 5]\<close> with
  \<open>f(x) = ((x-2)**2, x)\<close>, tolerance \<open>1e-6\<close> and \<open>Nitmax = 100\<close> the search
  converges to \<open>xmin = 2\<close> after 8 evaluations, and the auxiliary output returned is
  the one of the last evaluation, at \<open>2 - tol1\<close>, not the one at \<open>2\<close>.
\<close>

theorem aux_outputs_not_at_xmin:
  "brentmin 0 5 100 (1/1000000) parabola_tagged None () =
     [PyFloat 2, PyFloat 0, PyInt 8, PyAux (3145727428837 / 1572864000000)] \<and>
   map PyAux (snd (parabola_tagged 2 ())) = [PyAux 2]"
  by (simp add: brentmin_result brent_eval_defs parabola_tagged_def
      cong: Let_arg_cong case_prod_arg_cong)

subsection \<open>The endpoint check\<close>

lemma endpoint_check_cases:
  "(fa < fx_of s \<and> fa \<le> fb \<longrightarrow>
      xf_of (endpoint_check xlow xupp fa fb s) = xlow \<and>
      fx_of (endpoint_check xlow xupp fa fb s) = fa) \<and>
   (\<not> (fa < fx_of s \<and> fa \<le> fb) \<and> fb < fx_of s \<longrightarrow>
      xf_of (endpoint_check xlow xupp fa fb s) = xupp \<and>
      fx_of (endpoint_check xlow xupp fa fb s) = fb) \<and>
   (\<not> (fa < fx_of s \<and> fa \<le> fb) \<and> \<not> fb < fx_of s \<longrightarrow>
      xf_of (endpoint_check xlow xupp fa fb s) = xf_of s \<and>
      fx_of (endpoint_check xlow xupp fa fb s) = fx_of s) \<and>
   fx_of (endpoint_check xlow xupp fa fb s) = min fa (min fb (fx_of s))"
  by (auto simp: endpoint_check_def Let_def min_def)

text \<open>
  C4. Let \<open>fa = f(xlow)\<close>, \<open>fb = f(xupp)\<close> and \<open>fx\<close> the value of the best
  interior point when the main loop is left. If \<open>fa < fx\<close> and \<open>fa \<le> fb\<close> the
  result starts with \<open>xlow, fa\<close>; otherwise, if \<open>fb < fx\<close>, it starts with
  \<open>xupp, fb\<close>. In every case the returned \<open>fmin\<close> is the minimum of \<open>fa\<close>,
  \<open>fb\<close> and \<open>fx\<close>, hence at most both endpoint values.
\<close>

theorem endpoints_preferred:
  assumes "fa = fst (f xlow args)" and "fb = fst (f xupp args)"
    and "s = search xlow xupp Nitmax (max tol eps) f args"
  shows "(fa < fx_of s \<and> fa \<le> fb \<longrightarrow>
            take 2 (brentmin xlow xupp Nitmax tol f nout args) = [PyFloat xlow, PyFloat fa]) \<and>
         (\<not> (fa < fx_of s \<and> fa \<le> fb) \<and> fb < fx_of s \<longrightarrow>
            take 2 (brentmin xlow xupp Nitmax tol f nout args) = [PyFloat xupp, PyFloat fb]) \<and>
         brentmin xlow xupp Nitmax tol f nout args ! 1 = PyFloat (min fa (min fb (fx_of s))) \<and>
         min fa (min fb (fx_of s)) \<le> fa \<and> min fa (min fb (fx_of s)) \<le> fb"
proof -
  let ?r = "endpoint_check xlow xupp fa fb s"
  have shape: "brentmin xlow xupp Nitmax tol f nout args =
      [PyFloat (xf_of ?r), PyFloat (fx_of ?r), PyInt (funccount_of ?r)]
        @ map PyAux (varargout_of ?r)"
    using assms by (simp add: brentmin_result Let_def)
  have low: "fa < fx_of s \<and> fa \<le> fb \<longrightarrow> xf_of ?r = xlow \<and> fx_of ?r = fa"
    and upp: "\<not> (fa < fx_of s \<and> fa \<le> fb) \<and> fb < fx_of s \<longrightarrow> xf_of ?r = xupp \<and> fx_of ?r = fb"
    and least: "fx_of ?r = min fa (min fb (fx_of s))"
    using endpoint_check_cases [of fa s fb xlow xupp] by blast+
  show ?thesis
    unfolding shape using low upp least by simp
qed

lemma search_rising:
  "fx_of (search 0 1 4 (max (1/1000000) eps) rising_tagged ()) = 215027748241771 / 562949953421312"
  by (simp add: brent_eval_defs rising_tagged_def cong: Let_arg_cong case_prod_arg_cong)

lemma search_falling:
  "fx_of (search 0 1 4 (max (1/1000000) eps) falling_tagged ())
     = - (195862789200062724126130830663 / 316912650057057350374175801344)"
  by (simp add: brent_eval_defs falling_tagged_def cong: Let_arg_cong case_prod_arg_cong)

theorem endpoints_preferred_witness:
  "fst (rising_tagged 0 ()) < fx_of (search 0 1 4 (max (1/1000000) eps) rising_tagged ()) \<and>
   fst (rising_tagged 0 ()) \<le> fst (rising_tagged 1 ()) \<and>
   take 2 (brentmin 0 1 4 (1/1000000) rising_tagged None ()) = [PyFloat 0, PyFloat 0] \<and>
   \<not> (fst (falling_tagged 0 ()) < fx_of (search 0 1 4 (max (1/1000000) eps) falling_tagged ()) \<and>
      fst (falling_tagged 0 ()) \<le> fst (falling_tagged 1 ())) \<and>
   fst (falling_tagged 1 ()) < fx_of (search 0 1 4 (max (1/1000000) eps) falling_tagged ()) \<and>
   take 2 (brentmin 0 1 4 (1/1000000) falling_tagged None ()) = [PyFloat 1, PyFloat (- 1)]"
proof -
  have r: "fst (rising_tagged 0 ()) < fx_of (search 0 1 4 (max (1/1000000) eps) rising_tagged ())"
    "fst (rising_tagged 0 ()) \<le> fst (rising_tagged 1 ())"
    by (simp_all add: search_rising) (simp_all add: rising_tagged_def)
  have f: "\<not> (fst (falling_tagged 0 ()) < fx_of (search 0 1 4 (max (1/1000000) eps) falling_tagged ()) \<and>
      fst (falling_tagged 0 ()) \<le> fst (falling_tagged 1 ()))"
    "fst (falling_tagged 1 ()) < fx_of (search 0 1 4 (max (1/1000000) eps) falling_tagged ())"
    by (simp_all add: search_falling) (simp_all add: falling_tagged_def)
  from r endpoints_preferred [OF refl refl refl, of rising_tagged 0 "()" 1 4 "1/1000000" None]
  have "take 2 (brentmin 0 1 4 (1/1000000) rising_tagged None ()) = [PyFloat 0, PyFloat 0]"
    by (simp add: rising_tagged_def)
  moreover
  from f endpoints_preferred [OF refl refl refl, of falling_tagged 0 "()" 1 4 "1/1000000" None]
  have "take 2 (brentmin 0 1 4 (1/1000000) falling_tagged None ()) = [PyFloat 1, PyFloat (- 1)]"
    by (simp add: falling_tagged_def)
  ultimately show ?thesis using r f by blast
qed


subsection \<open>The bracket\<close>

lemma same_bracket_refl: "same_bracket s s"
  by (simp add: same_bracket_def)

lemma same_bracket_trans: "same_bracket s s' \<Longrightarrow> same_bracket s' s'' \<Longrightarrow> same_bracket s s''"
  by (simp add: same_bracket_def)

lemma same_bracket_adjust: "same_bracket s (near_endpoint_adjust s)"
  by (simp add: same_bracket_def near_endpoint_adjust_def Let_def)

lemma same_bracket_golden: "same_bracket s (golden s)"
  by (simp add: same_bracket_def golden_def Let_def)

lemma same_bracket_parabolic: "same_bracket s (snd (parabolic s))"
  by (simp add: same_bracket_def parabolic_def near_endpoint_adjust_def Let_def)

lemma same_bracket_choose_step: "same_bracket s (choose_step s)"
proof (cases "parabolic s")
  case (Pair gs s')
  with same_bracket_parabolic [of s] have "same_bracket s s'" by simp
  with Pair same_bracket_golden [of s'] show ?thesis
    by (auto simp: choose_step_def intro: same_bracket_trans)
qed

lemma same_bracket_candidate: "same_bracket s (candidate s)"
  by (simp add: same_bracket_def candidate_def Let_def)

text \<open>The three ways the step is chosen.\<close>

lemma golden_d:
  "d_of (golden s) = c * (if xf_of s \<ge> xm_of s then a_of s - xf_of s else b_of s - xf_of s)"
  by (simp add: golden_def Let_def)

lemma adjust_d:
  "d_of (near_endpoint_adjust s) = tol1_of s * of_int (sign_si (xm_of s - xf_of s)) \<or>
   (tol2_of s \<le> x_of s - a_of s \<and> tol2_of s \<le> b_of s - x_of s \<and>
    d_of (near_endpoint_adjust s) = d_of s)"
  by (auto simp: near_endpoint_adjust_def Let_def)

lemma parabolic_d:
  assumes "parabolic s = (False, s')"
  shows "d_of s' = tol1_of s * of_int (sign_si (xm_of s - xf_of s)) \<or>
         (tol2_of s \<le> xf_of s + d_of s' - a_of s \<and> tol2_of s \<le> b_of s - (xf_of s + d_of s'))"
proof -
  let ?r = "(xf_of s - w_of s) * (fx_of s - fv_of s)"
  let ?q = "(xf_of s - v_of s) * (fx_of s - fw_of s)"
  let ?p0 = "(xf_of s - v_of s) * ?q - (xf_of s - w_of s) * ?r"
  let ?q1 = "2 * (?q - ?r)"
  let ?p = "if ?q1 > 0 then - ?p0 else ?p0"
  let ?t = "s\<lparr>e_of := d_of s, d_of := ?p / \<bar>?q1\<bar>, x_of := xf_of s + ?p / \<bar>?q1\<bar>\<rparr>"
  from assms have "s' = near_endpoint_adjust ?t"
    by (simp add: parabolic_def Let_def split: if_splits)
  with adjust_d [of ?t] show ?thesis by auto
qed

lemma choose_step_d:
  "d_of (choose_step s)
      = c * (if xf_of s \<ge> xm_of s then a_of s - xf_of s else b_of s - xf_of s) \<or>
   d_of (choose_step s) = tol1_of s * of_int (sign_si (xm_of s - xf_of s)) \<or>
   (tol2_of s \<le> xf_of s + d_of (choose_step s) - a_of s \<and>
    tol2_of s \<le> b_of s - (xf_of s + d_of (choose_step s)))"
proof (cases "parabolic s")
  case (Pair gs s')
  show ?thesis
  proof (cases gs)
    case True
    from same_bracket_parabolic [of s] Pair have "same_bracket s s'" by simp
    with Pair True show ?thesis
      by (simp add: choose_step_def golden_d same_bracket_def)
  next
    case False
    with Pair parabolic_d [of s s'] show ?thesis
      by (simp add: choose_step_def)
  qed
qed

lemma sign_si_eq: "sign_si t = (if t < 0 then - 1 else 1)"
  by (simp add: sign_si_def cmp_py_def)

lemma candidate_x:
  "x_of (candidate s) = xf_of s + (if d_of s < 0 then - 1 else 1) * max \<bar>d_of s\<bar> (tol1_of s)"
  by (simp add: candidate_def sign_si_eq Let_def)

lemma loop_cond_room:
  assumes "bracket_inv tol s" and "loop_cond s"
  shows "(xf_of s \<ge> xm_of s \<longrightarrow> tol2_of s < xf_of s - a_of s) \<and>
         (xf_of s \<le> xm_of s \<longrightarrow> tol2_of s < b_of s - xf_of s)"
proof -
  from assms have h: "xm_of s = (a_of s + b_of s) / 2"
    "tol2_of s - (b_of s - a_of s) / 2 < \<bar>xf_of s - xm_of s\<bar>"
    by (simp_all add: bracket_inv_def loop_cond_def)
  show ?thesis
  proof (intro conjI impI)
    assume "xf_of s \<ge> xm_of s"
    then have "\<bar>xf_of s - xm_of s\<bar> = xf_of s - xm_of s" by simp
    with h show "tol2_of s < xf_of s - a_of s" by (simp add: field_simps)
  next
    assume "xf_of s \<le> xm_of s"
    then have "\<bar>xf_of s - xm_of s\<bar> = xm_of s - xf_of s" by simp
    with h show "tol2_of s < b_of s - xf_of s" by (simp add: field_simps)
  qed
qed

lemma tol1_pos:
  assumes "bracket_inv tol s" and "0 < tol"
  shows "0 < tol1_of s"
proof -
  have "0 \<le> seps * \<bar>xf_of s\<bar>" using seps_pos by simp
  with assms show ?thesis by (simp add: bracket_inv_def)
qed

lemma candidate_inside:
  assumes inv: "bracket_inv tol s" and tol: "0 < tol" and cond: "loop_cond s"
  shows "a_of s < x_of (candidate (choose_step s)) \<and> x_of (candidate (choose_step s)) < b_of s"
proof -
  define d where "d = d_of (choose_step s)"
  define t1 where "t1 = tol1_of s"
  define x where "x = xf_of s + (if d < 0 then - 1 else 1) * max \<bar>d\<bar> t1"
  have fr: "same_bracket s (choose_step s)" by (rule same_bracket_choose_step)
  have x: "x_of (candidate (choose_step s)) = x"
    using fr by (simp add: candidate_x x_def d_def t1_def same_bracket_def)
  have t1: "0 < t1" using tol1_pos [OF inv tol] by (simp add: t1_def)
  have t2: "tol2_of s = 2 * t1" using inv by (simp add: bracket_inv_def t1_def)
  have ord: "a_of s \<le> xf_of s" "xf_of s \<le> b_of s" using inv by (simp_all add: bracket_inv_def)
  have left: "xf_of s \<ge> xm_of s \<Longrightarrow> 2 * t1 < xf_of s - a_of s"
    and right: "xf_of s \<le> xm_of s \<Longrightarrow> 2 * t1 < b_of s - xf_of s"
    using loop_cond_room [OF inv cond] t2 by simp_all
  consider
    (golden) "d = c * (if xf_of s \<ge> xm_of s then a_of s - xf_of s else b_of s - xf_of s)"
    | (adjust) "d = t1 * of_int (sign_si (xm_of s - xf_of s))"
    | (parab) "2 * t1 \<le> xf_of s + d - a_of s" "2 * t1 \<le> b_of s - (xf_of s + d)"
    using choose_step_d [of s] t2 by (auto simp: d_def t1_def)
  then have "a_of s < x \<and> x < b_of s"
  proof cases
    case golden
    show ?thesis
    proof (cases "xf_of s \<ge> xm_of s")
      case True
      then have room: "2 * t1 < xf_of s - a_of s" by (rule left)
      with t1 have pos: "0 < xf_of s - a_of s" by simp
      define g where "g = c * (xf_of s - a_of s)"
      have "g < xf_of s - a_of s"
        using c_bounds pos by (simp add: g_def)
      moreover have "0 < g" using c_bounds pos by (simp add: g_def)
      moreover have "d = - g"
        using golden True by (simp add: g_def algebra_simps)
      ultimately show ?thesis using room t1 ord by (simp add: x_def max_def)
    next
      case False
      then have room: "2 * t1 < b_of s - xf_of s" using right by simp
      with t1 have pos: "0 < b_of s - xf_of s" by simp
      define g where "g = c * (b_of s - xf_of s)"
      have "g < b_of s - xf_of s"
        using c_bounds pos by (simp add: g_def)
      moreover have "0 < g" using c_bounds pos by (simp add: g_def)
      moreover have "d = g" using golden False by (simp add: g_def)
      ultimately show ?thesis using room t1 ord by (simp add: x_def max_def)
    qed
  next
    case adjust
    show ?thesis
    proof (cases "xm_of s - xf_of s < 0")
      case True
      then have "d = - t1" using adjust by (simp add: sign_si_eq)
      moreover from True have "2 * t1 < xf_of s - a_of s" using left by simp
      ultimately show ?thesis using t1 ord by (simp add: x_def max_def)
    next
      case False
      then have "d = t1" using adjust by (simp add: sign_si_eq)
      moreover from False have "2 * t1 < b_of s - xf_of s" using right by simp
      ultimately show ?thesis using t1 ord by (simp add: x_def max_def)
    qed
  next
    case parab
    then show ?thesis using t1 ord by (auto simp: x_def max_def)
  qed
  with x show ?thesis by simp
qed

lemma update_bracket:
  assumes "a_of s \<le> xf_of s" "xf_of s \<le> b_of s" "a_of s < x_of s" "x_of s < b_of s"
  shows "bracket_inv tol (update tol vargout s) \<and>
         a_of s \<le> a_of (update tol vargout s) \<and> b_of (update tol vargout s) \<le> b_of s"
  using assms by (simp add: update_def bracket_inv_def Let_def)

lemma body_bracket:
  assumes inv: "bracket_inv tol s" and tol: "0 < tol" and cond: "loop_cond s"
  shows "bracket_inv tol (body tol f args s) \<and>
         a_of s \<le> a_of (body tol f args s) \<and> b_of (body tol f args s) \<le> b_of s"
proof -
  let ?s1 = "candidate (choose_step s)"
  have "same_bracket s ?s1"
    using same_bracket_choose_step [of s] same_bracket_candidate [of "choose_step s"]
    by (rule same_bracket_trans)
  then have fr: "a_of ?s1 = a_of s" "b_of ?s1 = b_of s" "xf_of ?s1 = xf_of s"
    by (simp_all add: same_bracket_def)
  have "a_of ?s1 \<le> xf_of ?s1" "xf_of ?s1 \<le> b_of ?s1" "a_of ?s1 < x_of ?s1" "x_of ?s1 < b_of ?s1"
    using inv candidate_inside [OF inv tol cond] by (simp_all add: fr bracket_inv_def)
  from update_bracket [OF this, of tol "f (x_of ?s1) args"] show ?thesis
    by (simp add: body_def Let_def fr)
qed

lemma start_bracket:
  assumes "xlow \<le> xupp"
  shows "bracket_inv tol (start xlow xupp tol vargout)"
proof -
  have "0 \<le> c * (xupp - xlow)" using c_bounds assms by simp
  moreover have "c * (xupp - xlow) \<le> 1 * (xupp - xlow)"
    using c_bounds assms by (intro mult_right_mono) simp_all
  ultimately show ?thesis by (simp add: bracket_inv_def start_def Let_def)
qed

lemma loop_states_head:
  "\<exists>xs. loop_states Nitmax tol f args s = s # xs"
  by (subst loop_states.simps) simp

lemma loop_states_bracket:
  "0 < tol \<Longrightarrow> bracket_inv tol s \<Longrightarrow>
    list_all (bracket_inv tol) (loop_states Nitmax tol f args s) \<and>
    successively (\<lambda>s s'. a_of s \<le> a_of s' \<and> b_of s' \<le> b_of s)
      (loop_states Nitmax tol f args s)"
proof (induction Nitmax tol f args s rule: loop_states.induct)
  case (1 Nitmax tol f args s)
  note tol = \<open>0 < tol\<close> and inv = \<open>bracket_inv tol s\<close>
  show ?case
  proof (cases "loop_cond s")
    case False
    with inv show ?thesis by (subst (1 2) loop_states.simps) simp
  next
    case True
    note cond = this
    let ?s' = "body tol f args s"
    from body_bracket [OF inv tol cond, of f args]
    have inv': "bracket_inv tol ?s'" and nest: "a_of s \<le> a_of ?s'" "b_of ?s' \<le> b_of s"
      by simp_all
    show ?thesis
    proof (cases "funccount_of ?s' \<ge> Nitmax")
      case True
      with cond inv inv' nest show ?thesis
        by (subst (1 2) loop_states.simps) (simp add: Let_def)
    next
      case False
      from "1.IH" [OF cond refl False tol inv']
      have ih: "list_all (bracket_inv tol) (loop_states Nitmax tol f args ?s')"
        "successively (\<lambda>s s'. a_of s \<le> a_of s' \<and> b_of s' \<le> b_of s)
           (loop_states Nitmax tol f args ?s')"
        by simp_all
      obtain xs where xs: "loop_states Nitmax tol f args ?s' = ?s' # xs"
        using loop_states_head [of Nitmax tol f args ?s'] by auto
      have unfold: "loop_states Nitmax tol f args s = s # loop_states Nitmax tol f args ?s'"
        using cond False by (subst loop_states.simps) (simp add: Let_def)
      show ?thesis
        unfolding unfold using ih inv nest by (simp add: xs)
    qed
  qed
qed

lemma main_loop_last:
  "main_loop Nitmax tol f args s = last (loop_states Nitmax tol f args s)"
proof (induction Nitmax tol f args s rule: main_loop.induct)
  case (1 Nitmax tol f args s)
  show ?case
  proof (cases "loop_cond s")
    case False
    then show ?thesis by (subst loop_states.simps) simp
  next
    case True
    note cond = this
    let ?s' = "body tol f args s"
    show ?thesis
    proof (cases "funccount_of ?s' \<ge> Nitmax")
      case True
      with cond show ?thesis by (subst loop_states.simps) (simp add: Let_def)
    next
      case False
      obtain xs where xs: "loop_states Nitmax tol f args ?s' = ?s' # xs"
        using loop_states_head [of Nitmax tol f args ?s'] by auto
      have "main_loop Nitmax tol f args s = main_loop Nitmax tol f args ?s'"
        using cond False by (subst main_loop.simps) (simp add: Let_def)
      also have "\<dots> = last (loop_states Nitmax tol f args ?s')"
        using "1.IH" [OF cond refl False] .
      also have "\<dots> = last (loop_states Nitmax tol f args s)"
        using cond False xs by (subst (2) loop_states.simps) (simp add: Let_def)
      finally show ?thesis .
    qed
  qed
qed

lemma search_last:
  "search xlow xupp Nitmax tol f args =
     last (loop_states Nitmax tol f args
       (start xlow xupp tol (f (start_point xlow xupp) args)))"
  unfolding search_def by (rule main_loop_last)

text \<open>
  The bracket in exact arithmetic. For \<open>xlow \<le> xupp\<close> (the caller's contract), in
  every state of the main loop the best point lies in the bracket,
  \<open>a \<le> xf \<le> b\<close>, and from one iteration to the next the width \<open>b - a\<close> never
  grows. The states are those listed by \<open>loop_states\<close>, whose last one is the state
  the search ends in (\<open>search_last\<close>). This is the algorithm as designed; it says
  nothing of a run in which the midpoint of line 130 or 190 overflows (see the
  subsection on overflow below).
\<close>

lemma bracket_contains_best_and_narrows:
  assumes "xlow \<le> xupp"
  shows "list_all (\<lambda>s. a_of s \<le> xf_of s \<and> xf_of s \<le> b_of s)
           (loop_states Nitmax (max tol eps) f args
             (start xlow xupp (max tol eps) (f (start_point xlow xupp) args))) \<and>
         successively (\<lambda>s s'. b_of s' - a_of s' \<le> b_of s - a_of s)
           (loop_states Nitmax (max tol eps) f args
             (start xlow xupp (max tol eps) (f (start_point xlow xupp) args)))"
proof -
  let ?tol = "max tol eps"
  let ?tr = "loop_states Nitmax ?tol f args
               (start xlow xupp ?tol (f (start_point xlow xupp) args))"
  have pos: "0 < ?tol" using eps_pos by simp
  have "bracket_inv ?tol (start xlow xupp ?tol (f (start_point xlow xupp) args))"
    by (rule start_bracket [OF assms])
  from loop_states_bracket [OF pos this, of Nitmax f args]
  have inv: "list_all (bracket_inv ?tol) ?tr"
    and nest: "successively (\<lambda>s s'. a_of s \<le> a_of s' \<and> b_of s' \<le> b_of s) ?tr"
    by simp_all
  from inv have "list_all (\<lambda>s. a_of s \<le> xf_of s \<and> xf_of s \<le> b_of s) ?tr"
    by (simp add: list_all_iff bracket_inv_def)
  moreover from nest have "successively (\<lambda>s s'. b_of s' - a_of s' \<le> b_of s - a_of s) ?tr"
    by (rule successively_mono) simp
  ultimately show ?thesis by simp
qed

lemma loop_states_example_length:
  "length (loop_states 4 (max (1/1000000) eps) parabola_tagged ()
     (start 0 5 (max (1/1000000) eps) (parabola_tagged (start_point 0 5) ()))) = 2"
  by (simp add: brent_eval_defs parabola_tagged_def cong: Let_arg_cong case_prod_arg_cong)

lemma bracket_contains_best_and_narrows_example:
  "(0::real) \<le> 5 \<and>
   length (loop_states 4 (max (1/1000000) eps) parabola_tagged ()
     (start 0 5 (max (1/1000000) eps) (parabola_tagged (start_point 0 5) ()))) = 2 \<and>
   list_all (\<lambda>s. a_of s \<le> xf_of s \<and> xf_of s \<le> b_of s)
     (loop_states 4 (max (1/1000000) eps) parabola_tagged ()
       (start 0 5 (max (1/1000000) eps) (parabola_tagged (start_point 0 5) ()))) \<and>
   successively (\<lambda>s s'. b_of s' - a_of s' \<le> b_of s - a_of s)
     (loop_states 4 (max (1/1000000) eps) parabola_tagged ()
       (start 0 5 (max (1/1000000) eps) (parabola_tagged (start_point 0 5) ())))"
proof -
  have h: "(0::real) \<le> 5" by simp
  from bracket_contains_best_and_narrows [OF h, of 4 "1/1000000" parabola_tagged "()"]
    loop_states_example_length h
  show ?thesis by blast
qed

text \<open>
  The minimum step of lines 167-170 in exact arithmetic. The objective is evaluated at
  the abscissa \<open>x\<close> computed there, and the real number
  \<open>xf + si*max(abs(d),tol1)\<close> is at least \<open>tol1\<close> away from the current best point
  \<open>xf\<close>, for the \<open>tol1\<close> in force in that iteration. The double the program stores
  in \<open>x\<close> is that number rounded, which is a different matter (next subsection).
\<close>

lemma candidate_at_least_tol1_away:
  "body tol f args s =
     update tol (f (x_of (candidate (choose_step s))) args) (candidate (choose_step s)) \<and>
   tol1_of s \<le> \<bar>x_of (candidate (choose_step s)) - xf_of s\<bar>"
proof -
  have fr: "same_bracket s (choose_step s)" by (rule same_bracket_choose_step)
  define m where "m = max \<bar>d_of (choose_step s)\<bar> (tol1_of s)"
  have "tol1_of s \<le> m" by (simp add: m_def)
  moreover have "x_of (candidate (choose_step s)) - xf_of s
      = (if d_of (choose_step s) < 0 then - 1 else 1) * m"
    using fr by (simp add: candidate_x same_bracket_def m_def)
  ultimately have "tol1_of s \<le> \<bar>x_of (candidate (choose_step s)) - xf_of s\<bar>"
    by (simp split: if_splits)
  then show ?thesis by (simp add: body_def Let_def)
qed

lemma candidate_at_least_tol1_away_example:
  "tol1_of (start 0 5 (1/1000000) (parabola_tagged (start_point 0 5) ()))
     \<le> \<bar>x_of (candidate (choose_step
            (start 0 5 (1/1000000) (parabola_tagged (start_point 0 5) ()))))
          - xf_of (start 0 5 (1/1000000) (parabola_tagged (start_point 0 5) ()))\<bar>"
  using candidate_at_least_tol1_away
    [of "1/1000000" parabola_tagged "()"
      "start 0 5 (1/1000000) (parabola_tagged (start_point 0 5) ())"]
  by blast

subsection \<open>Double precision: the rounded minimum step\<close>

lemma powr_neg_numeral: "(2::real) powr (- numeral n) = 1 / 2 ^ numeral n"
  by (simp add: powr_minus inverse_eq_divide)

lemma exponent_double_binade:
  assumes "2 powr of_int k \<le> \<bar>y\<bar>" and "\<bar>y\<bar> < 2 powr of_int (k + 1)" and "- 1022 \<le> k"
  shows "exponent_double y = k"
proof -
  have "(2::real) powr of_int (- 1022) \<le> 2 powr of_int k"
    using assms(3) by simp
  moreover have "(2::real) powr of_int (- 1022) = 1 / 2 ^ 1022"
    by (simp add: powr_neg_numeral)
  ultimately have big: "1 / 2 ^ 1022 \<le> \<bar>y\<bar>" using assms(1) by linarith
  have "(0::real) < 1 / 2 ^ 1022" by simp
  with big have pos: "0 < \<bar>y\<bar>" by linarith
  have "\<lfloor>log 2 \<bar>y\<bar>\<rfloor> = k"
    using assms(1,2) pos by (simp add: floor_log_eq_powr_iff)
  with big show ?thesis by (simp add: exponent_double_def)
qed

lemma round_double_binade:
  assumes "2 powr of_int k \<le> \<bar>y\<bar>" and "\<bar>y\<bar> < 2 powr of_int (k + 1)" and "- 1022 \<le> k"
  shows "round_double y =
    (let u = 2 powr of_int (k - 52);
         v = u * of_int (round_even (y / u))
     in if \<bar>v\<bar> < 2 ^ 1024 then Some v else None)"
  by (simp add: round_double_def ulp_double_def exponent_double_binade [OF assms])

text \<open>
  The value the program stores in \<open>x\<close> at line 170 is the rounding of the value the
  exact model stores there.
\<close>

lemma sample_point_double_candidate:
  "sample_point_double (xf_of s) (d_of s) (tol1_of s) = round_double (x_of (candidate s))"
  by (simp add: sample_point_double_def candidate_def Let_def)


subsection \<open>Double precision: the overflow of the midpoint\<close>

text \<open>
  The docstring describes the bracket as the "search interval such that
  xlow<=xmin<=xupp", and the bracket invariant above is what the algorithm is designed
  to keep. The program loses it on brackets in the top binade: for the doubles
  \<open>a = 1e308 = 5010420900022432 * 2^971\<close> and \<open>b = 1.2e308 = 6012505080026918 * 2^971\<close>
  the sum \<open>a+b\<close> of line 130 is beyond the largest double, so \<open>xm\<close> is an infinity,
  and it stays one at line 190. Then \<open>xf >= xm\<close> is never true, the loop condition of
  line 134 never fails, every step goes to the right, and a step of \<open>tol1\<close> finally
  passes \<open>b\<close>.
\<close>

lemma midpoint_double_overflow:
  "midpoint_double (5010420900022432 * 2 ^ 971) (6012505080026918 * 2 ^ 971) = None"
proof -
  define y :: real where "y = 5010420900022432 * 2 ^ 971 + 6012505080026918 * 2 ^ 971"
  have k: "2 powr of_int 1024 \<le> \<bar>y\<bar>" "\<bar>y\<bar> < 2 powr of_int (1024 + 1)"
    by (simp_all add: y_def)
  have u: "(2::real) powr of_int (1024 - 52) = 2 ^ 972"
    by simp
  have "round_even (y / 2 ^ 972) = 5511462990024675"
    by (simp add: y_def round_even_def Let_def)
  then have "round_double y = None"
    using round_double_binade [OF k] by (simp add: u Let_def)
  then show ?thesis by (simp add: midpoint_double_def y_def)
qed

text \<open>The same on the degenerate bracket \<open>xlow = xupp = 1e308\<close>.\<close>

lemma midpoint_double_overflow_degenerate:
  "midpoint_double (5010420900022432 * 2 ^ 971) (5010420900022432 * 2 ^ 971) = None"
proof -
  define y :: real where "y = 5010420900022432 * 2 ^ 971 + 5010420900022432 * 2 ^ 971"
  have k: "2 powr of_int 1024 \<le> \<bar>y\<bar>" "\<bar>y\<bar> < 2 powr of_int (1024 + 1)"
    by (simp_all add: y_def)
  have "round_even (y / 2 ^ 972) = 5010420900022432"
    by (simp add: y_def round_even_def Let_def)
  then have "round_double y = None"
    using round_double_binade [OF k] by (simp add: Let_def)
  then show ?thesis by (simp add: midpoint_double_def y_def)
qed

text \<open>
  Well inside the range of the doubles the midpoint of a degenerate bracket is the point
  itself, as in the exact model.
\<close>

lemma midpoint_double_three: "midpoint_double 3 3 = Some 3"
proof -
  have k6: "2 powr of_int 2 \<le> \<bar>6::real\<bar>" "\<bar>6::real\<bar> < 2 powr of_int (2 + 1)"
    by simp_all
  have k3: "2 powr of_int 1 \<le> \<bar>3::real\<bar>" "\<bar>3::real\<bar> < 2 powr of_int (1 + 1)"
    by simp_all
  have six: "round_double 6 = Some 6"
    using round_double_binade [OF k6] by (simp add: powr_neg_numeral round_even_def Let_def)
  have three: "round_double 3 = Some 3"
    using round_double_binade [OF k3] by (simp add: powr_neg_numeral round_even_def Let_def)
  show ?thesis by (simp add: midpoint_double_def six three)
qed

subsection \<open>Determinism\<close>

lemma main_loop_io_pure:
  "\<forall>x world. fst (f x args world) = g x args \<Longrightarrow>
     fst (main_loop_io Nitmax tol f args s world) = main_loop Nitmax tol g args s"
proof (induction Nitmax tol f args s world rule: main_loop_io.induct)
  case (1 Nitmax tol f args s world)
  note pure = \<open>\<forall>x world. fst (f x args world) = g x args\<close>
  show ?case
  proof (cases "loop_cond s")
    case False
    then show ?thesis by simp
  next
    case True
    note cond = this
    let ?s1 = "candidate (choose_step s)"
    obtain v world' where fw: "f (x_of ?s1) args world = (v, world')"
      by (cases "f (x_of ?s1) args world")
    with pure have v: "g (x_of ?s1) args = v"
      by (metis fst_conv)
    let ?s2 = "update tol v ?s1"
    have body: "body tol g args s = ?s2"
      by (simp add: body_def Let_def v)
    show ?thesis
    proof (cases "funccount_of ?s2 \<ge> Nitmax")
      case True
      have "main_loop_io Nitmax tol f args s world = (?s2, world')"
        using cond True fw by (subst main_loop_io.simps) (simp add: Let_def)
      moreover have "main_loop Nitmax tol g args s = ?s2"
        using cond True body by (subst main_loop.simps) (simp add: Let_def)
      ultimately show ?thesis by simp
    next
      case False
      have "main_loop_io Nitmax tol f args s world = main_loop_io Nitmax tol f args ?s2 world'"
        using cond False fw by (subst main_loop_io.simps) (simp add: Let_def)
      moreover have "main_loop Nitmax tol g args s = main_loop Nitmax tol g args ?s2"
        using cond False body by (subst main_loop.simps) (simp add: Let_def)
      moreover have "fst (main_loop_io Nitmax tol f args ?s2 world')
          = main_loop Nitmax tol g args ?s2"
        using "1.IH" [OF cond refl refl fw [symmetric] refl False pure] .
      ultimately show ?thesis by simp
    qed
  qed
qed

text \<open>
  With an objective whose outputs do not depend on the world the effectful routine
  returns what \<open>brentmin\<close> returns.
\<close>

lemma brentmin_io_pure:
  assumes "\<forall>x world. fst (f x args world) = g x args"
  shows "fst (brentmin_io xlow xupp Nitmax tol f nout args world)
           = brentmin xlow xupp Nitmax tol g nout args"
proof -
  obtain v1 w1 where f1: "f xlow args world = (v1, w1)"
    by (cases "f xlow args world")
  obtain v2 w2 where f2: "f xupp args w1 = (v2, w2)"
    by (cases "f xupp args w1")
  obtain v3 w3 where f3: "f (start_point xlow xupp) args w2 = (v3, w3)"
    by (cases "f (start_point xlow xupp) args w2")
  from assms f1 f2 f3 have g: "g xlow args = v1" "g xupp args = v2"
    "g (start_point xlow xupp) args = v3"
    by (metis fst_conv)+
  obtain s w4 where ml: "main_loop_io Nitmax (max tol eps) f args
      (start xlow xupp (max tol eps) v3) w3 = (s, w4)"
    by (cases "main_loop_io Nitmax (max tol eps) f args (start xlow xupp (max tol eps) v3) w3")
  with main_loop_io_pure [where f = f and args = args and g = g, OF assms,
      of Nitmax "max tol eps" "start xlow xupp (max tol eps) v3" w3]
  have s: "search xlow xupp Nitmax (max tol eps) g args = s"
    by (simp add: search_def g)
  show ?thesis
    by (simp add: brentmin_io_def brentmin_def Let_def f1 f2 f3 ml g s
        del: main_loop_io.simps)
qed

text \<open>
  C9. Determinism: when the outputs of the objective do not depend on the state of the
  world it is called in, two invocations with the same arguments return the same
  sequence, whatever the world each of them starts in.
\<close>

theorem brentmin_deterministic:
  assumes "\<forall>x world world'. fst (f x args world) = fst (f x args world')"
  shows "fst (brentmin_io xlow xupp Nitmax tol f nout args world1)
           = fst (brentmin_io xlow xupp Nitmax tol f nout args world2)"
proof -
  define g where "g = (\<lambda>x args. fst (f x args world1))"
  have "\<forall>x world. fst (f x args world) = g x args"
    using assms by (simp add: g_def)
  from brentmin_io_pure [where f = f and args = args and g = g, OF this]
  show ?thesis by simp
qed

theorem brentmin_deterministic_witness:
  "(\<forall>x world world'. fst (counting_parabola x () world) = fst (counting_parabola x () world')) \<and>
   fst (brentmin_io 0 5 4 (1/1000000) counting_parabola None () 0)
     = fst (brentmin_io 0 5 4 (1/1000000) counting_parabola None () 7)"
proof -
  have h: "\<forall>x world world'. fst (counting_parabola x () world) = fst (counting_parabola x () world')"
    by (simp add: counting_parabola_def)
  from h brentmin_deterministic [where f = counting_parabola and args = "()", OF h,
      of 0 5 4 "1/1000000" None 0 7]
  show ?thesis by blast
qed

end
